theory Spec2Isabelle
  imports Main "HOL-Library.Word" "HOL-Library.Sublist"
begin

section \<open>The Tenxten strategy of \<^verbatim>\<open>strategies.py\<close>\<close>

text \<open>
  The strategy is a fixed-depth minimax search over the moves of a draughts game, with a
  transposition table keyed by a 64-bit hash of the game's FEN string. The rules of the
  game, the board and the hash function come from libraries that are not part of the
  repository; the search only calls them. They are taken as parameters here.
\<close>

subsection \<open>Data\<close>

text \<open>
  A piece of the board library: the search reads its fields \<^verbatim>\<open>player\<close> and
  \<^verbatim>\<open>king\<close> only. The type of player identities is left open (\<open>'p\<close>); the code
  compares them with \<^verbatim>\<open>==\<close> and does nothing else with them.
\<close>

record 'p piece =
  player :: 'p
  king :: bool

text \<open>
  \<^verbatim>\<open>position_pieces\<close> is a dict from field number to the piece standing there; a
  field without a piece has no entry. The loop of \<^verbatim>\<open>evaluate_position\<close> walks
  \<^verbatim>\<open>position.items()\<close>, so the dict is modelled by the list of its items in
  iteration order.
\<close>

type_synonym 'p position = "(nat \<times> 'p piece) list"

text \<open>
  What the search calls on a game object, as functions of the game's value \<open>'g\<close>:
  \<^verbatim>\<open>get_fen()\<close>, \<^verbatim>\<open>board.searcher.position_pieces\<close>, \<^verbatim>\<open>legal_moves()\<close> (a pair
  of lists, of which the search takes component 0), the value a game has after
  \<^verbatim>\<open>push(move)\<close>, \<^verbatim>\<open>has_player_won(player)\<close> and \<^verbatim>\<open>board.player_turn\<close>;
  and the hash \<^verbatim>\<open>cityhash.CityHash64\<close>. All of them are parameters: the development
  holds for every choice of them. The reading operations are taken to leave the game
  object as it is and to raise nothing.
\<close>

record ('g, 'm, 'p) draughts =
  get_fen :: "'g \<Rightarrow> string"
  position_pieces :: "'g \<Rightarrow> 'p position"
  legal_moves :: "'g \<Rightarrow> 'm list \<times> 'm list"
  push :: "'g \<Rightarrow> 'm \<Rightarrow> 'g"
  has_player_won :: "'g \<Rightarrow> 'p \<Rightarrow> bool"
  player_turn :: "'g \<Rightarrow> 'p"
  CityHash64 :: "string \<Rightarrow> 64 word"

text \<open>
  The mutable state. \<^verbatim>\<open>Tenxten.__init__\<close> creates \<^verbatim>\<open>self.counter = 0\<close> and
  \<^verbatim>\<open>self.transposition_table = {}\<close>; scores and the counter are Python integers, the
  keys are unsigned 64-bit hash values. Game objects are mutable and are handled by
  reference, so the state also holds the store of game objects: a reference is an index
  into \<open>games\<close>, and an object once created stays in the store.
\<close>

record 'g world =
  counter :: int
  transposition_table :: "64 word \<rightharpoonup> int"
  games :: "'g list"

text \<open>The exceptions of the Python built-ins that the search uses.\<close>

datatype error = ValueError | IndexError

datatype 'm move = Move (board_move: 'm)

datatype 'm play_result = PlayResult (result_move: "'m move") (ponder: "'m move option")

subsection \<open>Built-ins and library calls on objects\<close>

text \<open>\<^verbatim>\<open>max\<close> and \<^verbatim>\<open>min\<close> of a list raise \<^verbatim>\<open>ValueError\<close> on the empty list.\<close>

fun py_max :: "int list \<Rightarrow> error + int" where
  "py_max [] = Inl ValueError"
| "py_max (x # xs) = Inr (fold (\<lambda>item max_val. if item > max_val then item else max_val) xs x)"

fun py_min :: "int list \<Rightarrow> error + int" where
  "py_min [] = Inl ValueError"
| "py_min (x # xs) = Inr (fold (\<lambda>item min_val. if item < min_val then item else min_val) xs x)"

text \<open>\<^verbatim>\<open>list.index(v)\<close>: the first index holding \<open>v\<close>, \<^verbatim>\<open>ValueError\<close> if there is none.\<close>

fun py_index :: "int list \<Rightarrow> int \<Rightarrow> error + nat" where
  "py_index [] v = Inl ValueError"
| "py_index (x # xs) v =
     (if x = v then Inr 0
      else (case py_index xs v of Inl e \<Rightarrow> Inl e | Inr i \<Rightarrow> Inr (Suc i)))"

text \<open>\<^verbatim>\<open>moves[i]\<close> for an index \<open>i \<ge> 0\<close>.\<close>

definition py_getitem :: "'a list \<Rightarrow> nat \<Rightarrow> error + 'a" where
  "py_getitem xs i = (if i < length xs then Inr (xs ! i) else Inl IndexError)"

text \<open>
  \<^verbatim>\<open>game.copy()\<close> creates a new object with the value of \<open>game\<close> and returns its
  reference; \<^verbatim>\<open>game.push(move)\<close> changes the object \<open>game\<close> in place and returns
  the same reference.
\<close>

definition copy :: "nat \<Rightarrow> 'g world \<Rightarrow> nat \<times> 'g world" where
  "copy game w = (length (games w), w\<lparr>games := games w @ [games w ! game]\<rparr>)"

definition push_object :: "('g, 'm, 'p) draughts \<Rightarrow> nat \<Rightarrow> 'm \<Rightarrow> 'g world \<Rightarrow> nat \<times> 'g world" where
  "push_object lib game mv w =
     (game, w\<lparr>games := (games w)[game := push lib (games w ! game) mv]\<rparr>)"

text \<open>\<^verbatim>\<open>new_game = game.copy().push(move)\<close>\<close>

definition copy_push :: "('g, 'm, 'p) draughts \<Rightarrow> nat \<Rightarrow> 'm \<Rightarrow> 'g world \<Rightarrow> nat \<times> 'g world" where
  "copy_push lib game mv w =
     (case copy game w of (copied, w1) \<Rightarrow> push_object lib copied mv w1)"

subsection \<open>\<^verbatim>\<open>evaluate_position\<close>\<close>

text \<open>\<^verbatim>\<open>evaluation_dict = {True: 4, False: 1}\<close>, indexed by \<^verbatim>\<open>piece.king\<close>.\<close>

definition evaluation_dict :: "bool \<Rightarrow> int" where
  "evaluation_dict k = (if k then 4 else 1)"

text \<open>
  The \<^verbatim>\<open>for field_number, piece in position.items()\<close> loop, with the running
  \<^verbatim>\<open>score\<close> as accumulator.
\<close>

fun evaluate_loop :: "'p position \<Rightarrow> 'p \<Rightarrow> int \<Rightarrow> int" where
  "evaluate_loop [] player_color score = score"
| "evaluate_loop ((field_number, piece) # rest) player_color score =
     (let temp = (if player piece = player_color then 1 else - 1)
      in evaluate_loop rest player_color (score + evaluation_dict (king piece) * temp))"

text \<open>
  The method returns the score and, as its one side effect, adds one to
  \<^verbatim>\<open>self.counter\<close>.
\<close>

definition evaluate_position :: "'p position \<Rightarrow> 'p \<Rightarrow> 'g world \<Rightarrow> int \<times> 'g world" where
  "evaluate_position position player_color w =
     (evaluate_loop position player_color 0, w\<lparr>counter := counter w + 1\<rparr>)"

subsection \<open>\<^verbatim>\<open>recursive_search\<close>\<close>

text \<open>
  The loop \<^verbatim>\<open>for move in legal_moves: ...; scores.append(score)\<close>, which both
  \<^verbatim>\<open>recursive_search\<close> and \<^verbatim>\<open>search\<close> run: \<open>body\<close> computes the score of one
  move, and an exception raised there ends the loop.
\<close>

fun for_moves ::
  "('m \<Rightarrow> 'g world \<Rightarrow> (error + int) \<times> 'g world) \<Rightarrow> 'm list \<Rightarrow> int list \<Rightarrow> 'g world
     \<Rightarrow> (error + int list) \<times> 'g world" where
  "for_moves body [] scores w = (Inr scores, w)"
| "for_moves body (mv # rest) scores w =
     (case body mv w of
        (Inl e, w1) \<Rightarrow> (Inl e, w1)
      | (Inr score, w1) \<Rightarrow> for_moves body rest (scores @ [score]) w1)"

text \<open>
  The depth is a natural number: \<^verbatim>\<open>search\<close> passes 3, and every recursive call
  passes \<^verbatim>\<open>depth - 1\<close> from a depth that is not 0.
\<close>

fun recursive_search ::
  "('g, 'm, 'p) draughts \<Rightarrow> nat \<Rightarrow> nat \<Rightarrow> 'p \<Rightarrow> 'g world \<Rightarrow> (error + int) \<times> 'g world" where
  "recursive_search lib game depth player_color w =
     (let key = CityHash64 lib (get_fen lib (games w ! game)) in
      case transposition_table w key of
        Some cached \<Rightarrow> (Inr cached, w)
      | None \<Rightarrow>
          if depth = 0 then
            (case evaluate_position (position_pieces lib (games w ! game)) player_color w of
               (score, w1) \<Rightarrow>
                 (Inr score, w1\<lparr>transposition_table := (transposition_table w1)(key \<mapsto> score)\<rparr>))
          else
            (let legal = fst (legal_moves lib (games w ! game)) in
             if legal = [] then
               (if has_player_won lib (games w ! game) player_color
                then (Inr 100, w) else (Inr (- 100), w))
             else
               (case for_moves
                       (\<lambda>mv w0. case copy_push lib game mv w0 of
                          (new_game, w1) \<Rightarrow>
                            recursive_search lib new_game (depth - 1) player_color w1)
                       legal [] w of
                  (Inl e, w2) \<Rightarrow> (Inl e, w2)
                | (Inr scores, w2) \<Rightarrow>
                    if player_turn lib (games w2 ! game) = player_color then
                      (case py_max scores of
                         Inl e \<Rightarrow> (Inl e, w2)
                       | Inr max_score \<Rightarrow>
                           (Inr max_score,
                            w2\<lparr>transposition_table := (transposition_table w2)(key \<mapsto> max_score)\<rparr>))
                    else
                      (case py_min scores of
                         Inl e \<Rightarrow> (Inl e, w2)
                       | Inr min_score \<Rightarrow>
                           (Inr min_score,
                            w2\<lparr>transposition_table := (transposition_table w2)(key \<mapsto> min_score)\<rparr>)))))"

declare recursive_search.simps [simp del]

subsection \<open>\<^verbatim>\<open>search\<close>\<close>

text \<open>
  The two \<^verbatim>\<open>print\<close> calls and the timing decorator, which returns what the method
  returns, have no part in the result and are left out.
\<close>

definition search ::
  "('g, 'm, 'p) draughts \<Rightarrow> nat \<Rightarrow> 'g world \<Rightarrow> (error + 'm play_result) \<times> 'g world" where
  "search lib game w =
     (let player_color = player_turn lib (games w ! game);
          moves = fst (legal_moves lib (games w ! game)) in
      case for_moves
             (\<lambda>mv w0. case copy_push lib game mv w0 of
                (new_game, w1) \<Rightarrow> recursive_search lib new_game 3 player_color w1)
             moves [] w of
        (Inl e, w2) \<Rightarrow> (Inl e, w2)
      | (Inr score_list, w2) \<Rightarrow>
          (case py_max score_list of
             Inl e \<Rightarrow> (Inl e, w2)
           | Inr max_score \<Rightarrow>
               (case py_index score_list max_score of
                  Inl e \<Rightarrow> (Inl e, w2)
                | Inr best_move_index \<Rightarrow>
                    (case py_getitem moves best_move_index of
                       Inl e \<Rightarrow> (Inl e, w2)
                     | Inr best_move \<Rightarrow>
                         (Inr (PlayResult (Move best_move) None),
                          w2\<lparr>counter := 0, transposition_table := Map.empty\<rparr>)))))"

subsection \<open>A small game to run the search on\<close>

text \<open>
  A concrete instance of the library, for evaluating the search on explicit inputs. A game
  is the side to move and a pile of \<open>n\<close> counters; a move takes one or two counters and
  passes the turn; the side that cannot move has lost. The board shows \<open>n\<close> pieces on
  the fields \<open>0, \<dots>, n - 1\<close>, alternately of the two sides, the piece on field 0 a king.
\<close>

definition pile_lib :: "(bool \<times> nat, nat, bool) draughts" where
  "pile_lib =
     \<lparr>get_fen = (\<lambda>(t, n). (if t then CHR ''W'' else CHR ''B'') # replicate n CHR ''x''),
      position_pieces = (\<lambda>(t, n). map (\<lambda>i. (i, \<lparr>player = even i, king = (i = 0)\<rparr>)) [0..<n]),
      legal_moves = (\<lambda>(t, n). (filter (\<lambda>k. k \<le> n) [1, 2], [])),
      push = (\<lambda>(t, n) k. (\<not> t, n - k)),
      has_player_won = (\<lambda>(t, n) p. n = 0 \<and> t \<noteq> p),
      player_turn = fst,
      CityHash64 = (\<lambda>s. of_nat (length s) * 2 + (if take 1 s = ''W'' then 1 else 0))\<rparr>"

text \<open>The state after \<^verbatim>\<open>Tenxten.__init__\<close>, with the game objects \<open>gs\<close> in the store.\<close>

definition init_world :: "'g list \<Rightarrow> 'g world" where
  "init_world gs = \<lparr>counter = 0, transposition_table = Map.empty, games = gs\<rparr>"

subsection \<open>The evaluator's formula, as specified\<close>

text \<open>The contribution of one piece, in the words of the specification.\<close>

definition spec_piece_value :: "'p \<Rightarrow> 'p piece \<Rightarrow> int" where
  "spec_piece_value perspective pc =
     (if player pc = perspective then (if king pc then 4 else 1)
      else (if king pc then - 4 else - 1))"

section \<open>Built-ins, the loop and the unfolding of the search\<close>

lemma py_max_Max: "xs \<noteq> [] \<Longrightarrow> py_max xs = Inr (Max (set xs))"
proof (cases xs)
  case Nil
  assume "xs \<noteq> []"
  with Nil show ?thesis by simp
next
  case (Cons x ys)
  have "(\<lambda>item max_val. if item > max_val then item else max_val) = (max :: int \<Rightarrow> int \<Rightarrow> int)"
    by (intro ext) (simp add: max_def)
  with Cons show ?thesis using Max.set_eq_fold [of x ys] by simp
qed

lemma py_min_Min: "xs \<noteq> [] \<Longrightarrow> py_min xs = Inr (Min (set xs))"
proof (cases xs)
  case Nil
  assume "xs \<noteq> []"
  with Nil show ?thesis by simp
next
  case (Cons x ys)
  have "(\<lambda>item min_val. if item < min_val then item else min_val) = (min :: int \<Rightarrow> int \<Rightarrow> int)"
    by (intro ext) (simp add: min_def)
  with Cons show ?thesis using Min.set_eq_fold [of x ys] by simp
qed

lemma py_index_first:
  "v \<in> set xs \<Longrightarrow>
     \<exists>i. py_index xs v = Inr i \<and> i < length xs \<and> xs ! i = v \<and> (\<forall>j<i. xs ! j \<noteq> v)"
proof (induction xs)
  case Nil
  then show ?case by simp
next
  case (Cons x xs)
  show ?case
  proof (cases "x = v")
    case True
    then show ?thesis by simp
  next
    case False
    with Cons.prems have "v \<in> set xs" by simp
    from Cons.IH [OF this] obtain i where
      i: "py_index xs v = Inr i" "i < length xs" "xs ! i = v" "\<forall>j<i. xs ! j \<noteq> v"
      by blast
    have "\<forall>j<Suc i. (x # xs) ! j \<noteq> v"
      using False i(4) by (auto simp: nth_Cons split: nat.splits)
    with False i show ?thesis by simp
  qed
qed

lemma copy_push_eq:
  "copy_push lib game mv w =
     (length (games w), w\<lparr>games := games w @ [push lib (games w ! game) mv]\<rparr>)"
  by (simp add: copy_push_def copy_def push_object_def)

lemma for_moves_chain:
  assumes total: "\<And>mv w. \<exists>r w'. body mv w = (Inr r, w')"
  shows "\<exists>scores ws.
           length scores = length ms \<and> length ws = Suc (length ms) \<and> ws ! 0 = w \<and>
           (\<forall>i<length ms. body (ms ! i) (ws ! i) = (Inr (scores ! i), ws ! Suc i)) \<and>
           for_moves body ms acc w = (Inr (acc @ scores), last ws)"
proof (induction ms arbitrary: acc w)
  case Nil
  have "length [w] = Suc (length ([]::'a list)) \<and> [w] ! 0 = w \<and>
        for_moves body [] acc w = (Inr (acc @ []), last [w])"
    by simp
  then show ?case by (intro exI [of _ "[]"] exI [of _ "[w]"]) simp
next
  case (Cons m ms)
  from total obtain r w1 where step: "body m w = (Inr r, w1)" by blast
  from Cons.IH [of w1 "acc @ [r]"] obtain scores ws where
    len: "length scores = length ms" "length ws = Suc (length ms)" and
    hd: "ws ! 0 = w1" and
    chain: "\<forall>i<length ms. body (ms ! i) (ws ! i) = (Inr (scores ! i), ws ! Suc i)" and
    run: "for_moves body ms (acc @ [r]) w1 = (Inr ((acc @ [r]) @ scores), last ws)"
    by blast
  have ne: "ws \<noteq> []" using len(2) by auto
  have "\<forall>i<length (m # ms).
          body ((m # ms) ! i) ((w # ws) ! i) = (Inr ((r # scores) ! i), (w # ws) ! Suc i)"
  proof (intro allI impI)
    fix i assume "i < length (m # ms)"
    then show "body ((m # ms) ! i) ((w # ws) ! i) = (Inr ((r # scores) ! i), (w # ws) ! Suc i)"
      using step hd chain by (cases i) simp_all
  qed
  moreover have "for_moves body (m # ms) acc w = (Inr (acc @ r # scores), last (w # ws))"
    using step run ne by simp
  moreover have "length (r # scores) = length (m # ms)" "length (w # ws) = Suc (length (m # ms))"
    "(w # ws) ! 0 = w"
    using len by simp_all
  ultimately show ?case by blast
qed

lemma for_moves_prefix:
  assumes "\<And>mv w. prefix (games w) (games (snd (body mv w)))"
  shows "prefix (games w) (games (snd (for_moves body ms acc w)))"
proof (induction ms arbitrary: acc w)
  case Nil
  show ?case by simp
next
  case (Cons m ms)
  show ?case
  proof (cases "body m w")
    case (Pair res w1)
    have p1: "prefix (games w) (games w1)" using assms [of w m] Pair by simp
    show ?thesis
    proof (cases res)
      case (Inl e)
      with Pair p1 show ?thesis by simp
    next
      case (Inr r)
      have "prefix (games w1) (games (snd (for_moves body ms (acc @ [r]) w1)))"
        by (rule Cons.IH)
      with p1 Pair Inr show ?thesis by (auto intro: prefix_order.trans)
    qed
  qed
qed

lemma recursive_search_hit:
  "transposition_table w (CityHash64 lib (get_fen lib (games w ! game))) = Some v \<Longrightarrow>
     recursive_search lib game depth pc w = (Inr v, w)"
  by (simp add: recursive_search.simps [of lib game depth] Let_def)

lemma recursive_search_leaf:
  "transposition_table w (CityHash64 lib (get_fen lib (games w ! game))) = None \<Longrightarrow>
     recursive_search lib game 0 pc w =
       (Inr (evaluate_loop (position_pieces lib (games w ! game)) pc 0),
        w\<lparr>counter := counter w + 1,
          transposition_table := (transposition_table w)
            (CityHash64 lib (get_fen lib (games w ! game)) \<mapsto>
               evaluate_loop (position_pieces lib (games w ! game)) pc 0)\<rparr>)"
  by (simp add: recursive_search.simps [of lib game 0] Let_def evaluate_position_def)

lemma recursive_search_no_moves:
  "transposition_table w (CityHash64 lib (get_fen lib (games w ! game))) = None \<Longrightarrow>
   depth \<noteq> 0 \<Longrightarrow> fst (legal_moves lib (games w ! game)) = [] \<Longrightarrow>
     recursive_search lib game depth pc w =
       (Inr (if has_player_won lib (games w ! game) pc then 100 else - 100), w)"
  by (simp add: recursive_search.simps [of lib game depth] Let_def)

lemma recursive_search_inner:
  assumes "transposition_table w (CityHash64 lib (get_fen lib (games w ! game))) = None"
    and "depth \<noteq> 0" and "fst (legal_moves lib (games w ! game)) \<noteq> []"
    and "for_moves
           (\<lambda>mv w0. case copy_push lib game mv w0 of
              (new_game, w1) \<Rightarrow> recursive_search lib new_game (depth - 1) pc w1)
           (fst (legal_moves lib (games w ! game))) [] w = (Inr scores, w2)"
    and "scores \<noteq> []"
  shows "recursive_search lib game depth pc w =
     (let v = (if player_turn lib (games w2 ! game) = pc
               then Max (set scores) else Min (set scores))
      in (Inr v, w2\<lparr>transposition_table := (transposition_table w2)
                     (CityHash64 lib (get_fen lib (games w ! game)) \<mapsto> v)\<rparr>))"
  using assms
  by (simp add: recursive_search.simps [of lib game depth] Let_def py_max_Max py_min_Min)

lemma recursive_search_total:
  "\<exists>r w'. recursive_search lib game depth pc w = (Inr r, w')"
proof (induction depth arbitrary: game w)
  case 0
  show ?case
    by (cases "transposition_table w (CityHash64 lib (get_fen lib (games w ! game)))")
       (simp_all add: recursive_search_leaf recursive_search_hit)
next
  case (Suc d)
  let ?body = "\<lambda>mv w0. case copy_push lib game mv w0 of
                 (new_game, w1) \<Rightarrow> recursive_search lib new_game (Suc d - 1) pc w1"
  let ?legal = "fst (legal_moves lib (games w ! game))"
  have total: "\<And>mv w0. \<exists>r w'. ?body mv w0 = (Inr r, w')"
    using Suc.IH by (simp add: copy_push_eq)
  from for_moves_chain [of ?body ?legal w "[]", OF total] obtain scores w2 where
    len: "length scores = length ?legal" and
    run: "for_moves ?body ?legal [] w = (Inr scores, w2)"
    by auto
  show ?case
  proof (cases "transposition_table w (CityHash64 lib (get_fen lib (games w ! game)))")
    case (Some v)
    then show ?thesis by (simp add: recursive_search_hit)
  next
    case None
    show ?thesis
    proof (cases "?legal = []")
      case True
      with None show ?thesis by (simp add: recursive_search_no_moves)
    next
      case False
      with len have "scores \<noteq> []" by auto
      from recursive_search_inner [OF None _ False run this]
      show ?thesis by (simp add: Let_def)
    qed
  qed
qed

lemma recursive_search_prefix:
  fixes w :: "'g world"
  shows "prefix (games w) (games (snd (recursive_search lib game depth pc w)))"
proof (induction depth arbitrary: game w)
  case 0
  show ?case
    by (cases "transposition_table w (CityHash64 lib (get_fen lib (games w ! game)))")
       (simp_all add: recursive_search_leaf recursive_search_hit)
next
  case (Suc d)
  let ?body = "\<lambda>mv w0. case copy_push lib game mv w0 of
                 (new_game, w1) \<Rightarrow> recursive_search lib new_game (Suc d - 1) pc w1"
  let ?legal = "fst (legal_moves lib (games w ! game))"
  have step: "\<And>mv w0. prefix (games w0) (games (snd (?body mv w0)))"
  proof -
    fix mv and w0 :: "'g world"
    let ?w1 = "w0\<lparr>games := games w0 @ [push lib (games w0 ! game) mv]\<rparr>"
    have "prefix (games ?w1) (games (snd (recursive_search lib (length (games w0)) d pc ?w1)))"
      by (rule Suc.IH)
    moreover have "prefix (games w0) (games ?w1)" by simp
    ultimately have "prefix (games w0)
        (games (snd (recursive_search lib (length (games w0)) d pc ?w1)))"
      by (rule prefix_order.trans [rotated])
    then show "prefix (games w0) (games (snd (?body mv w0)))"
      by (simp add: copy_push_eq)
  qed
  have loop: "prefix (games w) (games (snd (for_moves ?body ?legal [] w)))"
    by (rule for_moves_prefix) (rule step)
  have total: "\<And>mv w0. \<exists>r w'. ?body mv w0 = (Inr r, w')"
    using recursive_search_total by (simp add: copy_push_eq)
  from for_moves_chain [of ?body ?legal w "[]", OF total] obtain scores w2 where
    len: "length scores = length ?legal" and
    run: "for_moves ?body ?legal [] w = (Inr scores, w2)"
    by auto
  from loop run have p2: "prefix (games w) (games w2)" by simp
  show ?case
  proof (cases "transposition_table w (CityHash64 lib (get_fen lib (games w ! game)))")
    case (Some v)
    then show ?thesis by (simp add: recursive_search_hit)
  next
    case None
    show ?thesis
    proof (cases "?legal = []")
      case True
      with None show ?thesis by (simp add: recursive_search_no_moves)
    next
      case False
      with len have "scores \<noteq> []" by auto
      from recursive_search_inner [OF None _ False run this] p2
      show ?thesis by (simp add: Let_def)
    qed
  qed
qed

section \<open>The children of a state and the root driver\<close>

lemma prefix_nth: "prefix xs ys \<Longrightarrow> i < length xs \<Longrightarrow> ys ! i = xs ! i"
  by (auto simp: prefix_def nth_append)

lemma child_search_prefix:
  fixes w0 :: "'g world"
  shows "prefix (games w0)
     (games (snd (case copy_push lib game mv w0 of
                    (new_game, w1) \<Rightarrow> recursive_search lib new_game d pc w1)))"
proof -
  let ?w1 = "w0\<lparr>games := games w0 @ [push lib (games w0 ! game) mv]\<rparr>"
  have "prefix (games ?w1) (games (snd (recursive_search lib (length (games w0)) d pc ?w1)))"
    by (rule recursive_search_prefix)
  moreover have "prefix (games w0) (games ?w1)" by simp
  ultimately have "prefix (games w0)
      (games (snd (recursive_search lib (length (games w0)) d pc ?w1)))"
    by (rule prefix_order.trans [rotated])
  then show ?thesis by (simp add: copy_push_eq)
qed

lemma child_search_total:
  "\<exists>r w'. (case copy_push lib game mv w0 of
              (new_game, w1) \<Rightarrow> recursive_search lib new_game d pc w1) = (Inr r, w')"
  using recursive_search_total by (simp add: copy_push_eq)

lemma children_chain:
  fixes w :: "'g world"
  assumes alloc: "game < length (games w)"
  shows "\<exists>scores ws.
           length scores = length ms \<and> length ws = Suc (length ms) \<and> ws ! 0 = w \<and>
           (\<forall>i<length ms.
              case copy_push lib game (ms ! i) (ws ! i) of
                (child, wc) \<Rightarrow>
                  games wc ! child = push lib (games w ! game) (ms ! i) \<and>
                  recursive_search lib child d pc wc = (Inr (scores ! i), ws ! Suc i)) \<and>
           games (last ws) ! game = games w ! game \<and>
           for_moves (\<lambda>mv w0. case copy_push lib game mv w0 of
                        (new_game, w1) \<Rightarrow> recursive_search lib new_game d pc w1)
             ms [] w = (Inr scores, last ws)"
proof -
  let ?body = "\<lambda>mv (w0 :: 'g world). case copy_push lib game mv w0 of
                 (new_game, w1) \<Rightarrow> recursive_search lib new_game d pc w1"
  have total: "\<And>mv w0. \<exists>r w'. ?body mv w0 = (Inr r, w')"
    by (rule child_search_total)
  from for_moves_chain [of ?body ms w "[]", OF total] obtain scores ws where
    len: "length scores = length ms" "length ws = Suc (length ms)" and
    hd: "ws ! 0 = w" and
    chain: "\<forall>i<length ms. ?body (ms ! i) (ws ! i) = (Inr (scores ! i), ws ! Suc i)" and
    run: "for_moves ?body ms [] w = (Inr scores, last ws)"
    by auto
  have pre: "i \<le> length ms \<Longrightarrow> prefix (games w) (games (ws ! i))" for i
  proof (induction i)
    case 0
    show ?case by (simp add: hd)
  next
    case (Suc i)
    then have i: "i < length ms" and p: "prefix (games w) (games (ws ! i))" by simp_all
    have "prefix (games (ws ! i)) (games (snd (?body (ms ! i) (ws ! i))))"
      by (rule child_search_prefix)
    with chain i have "prefix (games (ws ! i)) (games (ws ! Suc i))" by simp
    with p show ?case by (rule prefix_order.trans)
  qed
  have same: "i \<le> length ms \<Longrightarrow> games (ws ! i) ! game = games w ! game" for i
    using pre [of i] alloc by (rule prefix_nth)
  have "\<forall>i<length ms.
          case copy_push lib game (ms ! i) (ws ! i) of
            (child, wc) \<Rightarrow>
              games wc ! child = push lib (games w ! game) (ms ! i) \<and>
              recursive_search lib child d pc wc = (Inr (scores ! i), ws ! Suc i)"
  proof (intro allI impI)
    fix i assume i: "i < length ms"
    then have "games (ws ! i) ! game = games w ! game" by (simp add: same)
    moreover from chain i
    have "?body (ms ! i) (ws ! i) = (Inr (scores ! i), ws ! Suc i)" by simp
    ultimately show "case copy_push lib game (ms ! i) (ws ! i) of
            (child, wc) \<Rightarrow>
              games wc ! child = push lib (games w ! game) (ms ! i) \<and>
              recursive_search lib child d pc wc = (Inr (scores ! i), ws ! Suc i)"
      by (simp add: copy_push_eq)
  qed
  moreover have "games (last ws) ! game = games w ! game"
  proof -
    have "ws \<noteq> []" using len(2) by auto
    then have "last ws = ws ! length ms" using len(2) by (simp add: last_conv_nth)
    then show ?thesis using same [of "length ms"] by simp
  qed
  ultimately show ?thesis using len hd run by blast
qed

lemma search_no_moves:
  "fst (legal_moves lib (games w ! game)) = [] \<Longrightarrow> search lib game w = (Inl ValueError, w)"
  by (simp add: search_def Let_def)

lemma search_run:
  assumes "for_moves
             (\<lambda>mv w0. case copy_push lib game mv w0 of
                (new_game, w1) \<Rightarrow>
                  recursive_search lib new_game 3 (player_turn lib (games w ! game)) w1)
             (fst (legal_moves lib (games w ! game))) [] w = (Inr scores, w2)"
    and "length scores = length (fst (legal_moves lib (games w ! game)))"
    and "fst (legal_moves lib (games w ! game)) \<noteq> []"
  shows "\<exists>best. best < length scores \<and> scores ! best = Max (set scores) \<and>
           (\<forall>j<best. scores ! j \<noteq> Max (set scores)) \<and>
           search lib game w =
             (Inr (PlayResult (Move (fst (legal_moves lib (games w ! game)) ! best)) None),
              w2\<lparr>counter := 0, transposition_table := Map.empty\<rparr>)"
proof -
  from assms(2,3) have ne: "scores \<noteq> []" by auto
  then have "Max (set scores) \<in> set scores" by (intro Max_in) simp_all
  from py_index_first [OF this] obtain best where
    best: "py_index scores (Max (set scores)) = Inr best" "best < length scores"
      "scores ! best = Max (set scores)" "\<forall>j<best. scores ! j \<noteq> Max (set scores)"
    by blast
  have "search lib game w =
          (Inr (PlayResult (Move (fst (legal_moves lib (games w ! game)) ! best)) None),
           w2\<lparr>counter := 0, transposition_table := Map.empty\<rparr>)"
    using assms(1,2) ne best(1,2)
    by (simp add: search_def Let_def py_max_Max py_getitem_def)
  with best show ?thesis by blast
qed

lemma search_prefix:
  fixes w :: "'g world"
  shows "prefix (games w) (games (snd (search lib game w)))"
proof (cases "fst (legal_moves lib (games w ! game)) = []")
  case True
  then show ?thesis by (simp add: search_no_moves)
next
  case False
  let ?body = "\<lambda>mv (w0 :: 'g world). case copy_push lib game mv w0 of
                 (new_game, w1) \<Rightarrow>
                   recursive_search lib new_game 3 (player_turn lib (games w ! game)) w1"
  let ?legal = "fst (legal_moves lib (games w ! game))"
  have total: "\<And>mv w0. \<exists>r w'. ?body mv w0 = (Inr r, w')"
    by (rule child_search_total)
  from for_moves_chain [of ?body ?legal w "[]", OF total] obtain scores w2 where
    len: "length scores = length ?legal" and
    run: "for_moves ?body ?legal [] w = (Inr scores, w2)"
    by auto
  have "prefix (games w) (games (snd (for_moves ?body ?legal [] w)))"
    by (rule for_moves_prefix) (rule child_search_prefix)
  with run have "prefix (games w) (games w2)" by simp
  moreover from search_run [OF run len False] obtain best where
    "search lib game w = (Inr (PlayResult (Move (?legal ! best)) None),
              w2\<lparr>counter := 0, transposition_table := Map.empty\<rparr>)"
    by blast
  ultimately show ?thesis by simp
qed

section \<open>Properties of the evaluator\<close>

lemma evaluate_loop_sum:
  "evaluate_loop pos p acc = acc + (\<Sum>(c, pc) \<leftarrow> pos. spec_piece_value p pc)"
  by (induction pos p acc rule: evaluate_loop.induct)
     (simp_all add: spec_piece_value_def evaluation_dict_def)

lemma piece_value_counts:
  "(\<Sum>(c, pc) \<leftarrow> pos. spec_piece_value p pc) =
     4 * int (length (filter (\<lambda>(c, pc). player pc = p \<and> king pc) pos))
     + int (length (filter (\<lambda>(c, pc). player pc = p \<and> \<not> king pc) pos))
     - 4 * int (length (filter (\<lambda>(c, pc). player pc \<noteq> p \<and> king pc) pos))
     - int (length (filter (\<lambda>(c, pc). player pc \<noteq> p \<and> \<not> king pc) pos))"
  by (induction pos) (auto simp: spec_piece_value_def)

lemma piece_value_swap:
  assumes "p \<noteq> q" and "\<forall>(c, pc) \<in> set pos. player pc = p \<or> player pc = q"
  shows "(\<Sum>(c, pc) \<leftarrow> pos. spec_piece_value p pc) = - (\<Sum>(c, pc) \<leftarrow> pos. spec_piece_value q pc)"
  using assms by (induction pos) (auto simp: spec_piece_value_def)

text \<open>
  Claim C5. The score that \<^verbatim>\<open>evaluate_position\<close> returns is the sum, over the
  entries of the position, of \<open>+4\<close> for a king of the perspective player, \<open>+1\<close> for
  one of their regular pieces, \<open>-4\<close> for an opposing king and \<open>-1\<close> for an opposing
  regular piece; that is, four times the number of own kings plus the number of own
  regular pieces, minus four times the number of opposing kings, minus the number of
  opposing regular pieces. A field without a piece has no entry in the position and so adds
  nothing. A position without any piece evaluates to 0.
\<close>

theorem evaluate_position_formula:
  "fst (evaluate_position pos p w) = (\<Sum>(c, pc) \<leftarrow> pos. spec_piece_value p pc)
   \<and> fst (evaluate_position pos p w) =
       4 * int (length (filter (\<lambda>(c, pc). player pc = p \<and> king pc) pos))
       + int (length (filter (\<lambda>(c, pc). player pc = p \<and> \<not> king pc) pos))
       - 4 * int (length (filter (\<lambda>(c, pc). player pc \<noteq> p \<and> king pc) pos))
       - int (length (filter (\<lambda>(c, pc). player pc \<noteq> p \<and> \<not> king pc) pos))
   \<and> fst (evaluate_position [] p w) = 0"
proof -
  have "fst (evaluate_position pos p w) = (\<Sum>(c, pc) \<leftarrow> pos. spec_piece_value p pc)"
    by (simp add: evaluate_position_def evaluate_loop_sum)
  moreover have "fst (evaluate_position [] p w) = 0"
    by (simp add: evaluate_position_def)
  ultimately show ?thesis
    using piece_value_counts [of p pos] by simp
qed

text \<open>
  An instance: a king and two regular pieces of the perspective player against a king and
  a regular piece of the other side.
\<close>

theorem evaluate_position_formula_witness:
  "fst (evaluate_position
          [(3, \<lparr>player = True, king = True\<rparr>), (8, \<lparr>player = False, king = False\<rparr>),
           (12, \<lparr>player = False, king = True\<rparr>), (20, \<lparr>player = True, king = False\<rparr>),
           (21, \<lparr>player = True, king = False\<rparr>)]
          True (init_world [(True, 0::nat)])) = 4 - 1 - 4 + 1 + 1"
  using evaluate_position_formula
    [of "[(3, \<lparr>player = True, king = True\<rparr>), (8, \<lparr>player = False, king = False\<rparr>),
           (12, \<lparr>player = False, king = True\<rparr>), (20, \<lparr>player = True, king = False\<rparr>),
           (21, \<lparr>player = True, king = False\<rparr>)]" True "init_world [(True, 0::nat)]"]
  by (simp add: spec_piece_value_def)

text \<open>
  Claim C7. When \<open>p\<close> and \<open>q\<close> are the two player identities, that is, they differ
  and every piece of the position belongs to one of them, the score from the perspective
  of \<open>p\<close> is the negation of the score from the perspective of \<open>q\<close>.
\<close>

theorem evaluate_position_swap:
  assumes "p \<noteq> q" and "\<forall>(c, pc) \<in> set pos. player pc = p \<or> player pc = q"
  shows "fst (evaluate_position pos p w) = - fst (evaluate_position pos q w')"
  using piece_value_swap [OF assms]
  by (simp add: evaluate_position_def evaluate_loop_sum)

theorem evaluate_position_swap_witness:
  "fst (evaluate_position [(3, \<lparr>player = True, king = True\<rparr>), (8, \<lparr>player = False, king = False\<rparr>),
                          (20, \<lparr>player = True, king = False\<rparr>)] True (init_world [(True, 0::nat)])) = 4
   \<and> fst (evaluate_position [(3, \<lparr>player = True, king = True\<rparr>), (8, \<lparr>player = False, king = False\<rparr>),
                          (20, \<lparr>player = True, king = False\<rparr>)] False (init_world [(True, 0::nat)])) = - 4"
proof -
  let ?pos = "[(3::nat, \<lparr>player = True, king = True\<rparr>), (8, \<lparr>player = False, king = False\<rparr>),
               (20, \<lparr>player = True, king = False\<rparr>)]"
  have h1: "True \<noteq> False" by simp
  have h2: "\<forall>(c, pc) \<in> set ?pos. player pc = True \<or> player pc = False" by simp
  have v: "fst (evaluate_position ?pos False (init_world [(True, 0::nat)])) = - 4"
    by (simp add: evaluate_position_def evaluation_dict_def)
  from evaluate_position_swap [OF h1 h2, of "init_world [(True, 0::nat)]" "init_world [(True, 0::nat)]"] v
  show ?thesis by simp
qed

section \<open>Properties of the search\<close>

text \<open>The rewrite rules that run the search on the small game.\<close>

lemmas pile_simps =
  pile_lib_def init_world_def recursive_search.simps search_def copy_push_def copy_def
  push_object_def evaluate_position_def evaluation_dict_def py_getitem_def Let_def
  upt_conv_Cons

text \<open>
  Claim C3. At every depth, when the hash of the game's FEN string is a key of the
  transposition table, \<^verbatim>\<open>recursive_search\<close> returns the stored score and leaves the
  whole state as it was: the table and the evaluation counter are unchanged, and no game
  object has been created, so no position was evaluated and no child was searched.
\<close>

theorem recursive_search_cache_hit:
  assumes "transposition_table w (CityHash64 lib (get_fen lib (games w ! game))) = Some v"
  shows "recursive_search lib game depth pc w = (Inr v, w)"
  using assms by (rule recursive_search_hit)

text \<open>A table holding the key 7 of the game \<open>(True, 2)\<close>, searched at depth 3 and at depth 0.\<close>

theorem recursive_search_cache_hit_witness:
  "recursive_search pile_lib 0 3 True
     \<lparr>counter = 2, transposition_table = [7 \<mapsto> 4], games = [(True, 2)]\<rparr> =
   (Inr 4, \<lparr>counter = 2, transposition_table = [7 \<mapsto> 4], games = [(True, 2)]\<rparr>)
   \<and> recursive_search pile_lib 0 0 True
     \<lparr>counter = 2, transposition_table = [7 \<mapsto> 4], games = [(True, 2)]\<rparr> =
   (Inr 4, \<lparr>counter = 2, transposition_table = [7 \<mapsto> 4], games = [(True, 2)]\<rparr>)"
proof -
  let ?w = "\<lparr>counter = 2, transposition_table = [7 \<mapsto> 4], games = [(True, 2::nat)]\<rparr>"
  have h: "transposition_table ?w (CityHash64 pile_lib (get_fen pile_lib (games ?w ! 0))) = Some 4"
    by (simp add: pile_lib_def)
  from recursive_search_cache_hit [OF h, of 3 True] recursive_search_cache_hit [OF h, of 0 True]
  show ?thesis by simp
qed

text \<open>
  Claim C4. When the key is not in the table, the depth is positive and component 0 of
  \<^verbatim>\<open>legal_moves()\<close> is empty, \<^verbatim>\<open>recursive_search\<close> returns 100 if
  \<^verbatim>\<open>has_player_won(player_color)\<close> holds and \<open>-100\<close> if not; nothing else is
  consulted, and the state is left as it was.
\<close>

theorem recursive_search_no_moves_score:
  assumes "transposition_table w (CityHash64 lib (get_fen lib (games w ! game))) = None"
    and "0 < depth" and "fst (legal_moves lib (games w ! game)) = []"
  shows "recursive_search lib game depth pc w =
           (Inr (if has_player_won lib (games w ! game) pc then 100 else - 100), w)"
  using assms by (simp add: recursive_search_no_moves)

text \<open>The empty pile with \<open>True\<close> to move: \<open>False\<close> has won.\<close>

theorem recursive_search_no_moves_score_witness:
  "recursive_search pile_lib 0 3 False (init_world [(True, 0)]) = (Inr 100, init_world [(True, 0)])
   \<and> recursive_search pile_lib 0 3 True (init_world [(True, 0)]) = (Inr (- 100), init_world [(True, 0)])"
proof -
  let ?w = "init_world [(True, 0::nat)]"
  have h1: "transposition_table ?w (CityHash64 pile_lib (get_fen pile_lib (games ?w ! 0))) = None"
    by (simp add: init_world_def)
  have h2: "0 < (3::nat)" by simp
  have h3: "fst (legal_moves pile_lib (games ?w ! 0)) = []"
    by (simp add: init_world_def pile_lib_def)
  have v: "has_player_won pile_lib (games ?w ! 0) False" "\<not> has_player_won pile_lib (games ?w ! 0) True"
    by (simp_all add: init_world_def pile_lib_def)
  from recursive_search_no_moves_score [OF h1 h2 h3, of False]
       recursive_search_no_moves_score [OF h1 h2 h3, of True] v
  show ?thesis by simp
qed

text \<open>
  Claim C6, as stated for all states, fails where the key is already in the table. A search
  of the game \<open>(True, 2)\<close> at depth 1 from the initial state stores the score 4 under
  the game's key; a depth-0 search of the same game in the state this leaves returns the
  stored 4, while the evaluation of the position is 3.
\<close>

theorem recursive_search_depth_zero_counterexample:
  "fst (recursive_search pile_lib 0 0 True
          (snd (recursive_search pile_lib 0 1 True (init_world [(True, 2)])))) = Inr 4
   \<and> games (snd (recursive_search pile_lib 0 1 True (init_world [(True, 2)]))) ! 0 = (True, 2)
   \<and> fst (evaluate_position (position_pieces pile_lib (True, 2)) True
          (snd (recursive_search pile_lib 0 1 True (init_world [(True, 2)])))) = 3
   \<and> fst (recursive_search pile_lib 0 0 True
          (snd (recursive_search pile_lib 0 1 True (init_world [(True, 2)])))) \<noteq>
       Inr (fst (evaluate_position (position_pieces pile_lib (True, 2)) True
          (snd (recursive_search pile_lib 0 1 True (init_world [(True, 2)])))))
   \<and> counter (snd (recursive_search pile_lib 0 0 True
          (snd (recursive_search pile_lib 0 1 True (init_world [(True, 2)]))))) =
       counter (snd (recursive_search pile_lib 0 1 True (init_world [(True, 2)])))"
  by (simp add: pile_simps)

text \<open>
  Claim C6, amended. When the key of the game is not in the transposition table,
  \<^verbatim>\<open>recursive_search\<close> at depth 0 returns the score of \<^verbatim>\<open>evaluate_position\<close> on
  the game's position, and the state it leaves is the one \<^verbatim>\<open>evaluate_position\<close> leaves
  (the counter one higher) with that score stored in the table under the key.
\<close>

theorem recursive_search_depth_zero:
  assumes "transposition_table w (CityHash64 lib (get_fen lib (games w ! game))) = None"
  shows "recursive_search lib game 0 pc w =
     (Inr (fst (evaluate_position (position_pieces lib (games w ! game)) pc w)),
      (snd (evaluate_position (position_pieces lib (games w ! game)) pc w))
        \<lparr>transposition_table := (transposition_table w)
           (CityHash64 lib (get_fen lib (games w ! game)) \<mapsto>
              fst (evaluate_position (position_pieces lib (games w ! game)) pc w))\<rparr>)"
  using assms by (simp add: recursive_search_leaf evaluate_position_def)

theorem recursive_search_depth_zero_witness:
  "recursive_search pile_lib 0 0 True (init_world [(True, 2)]) =
     (Inr 3, \<lparr>counter = 1, transposition_table = [7 \<mapsto> 3], games = [(True, 2)]\<rparr>)"
proof -
  let ?w = "init_world [(True, 2::nat)]"
  have h: "transposition_table ?w (CityHash64 pile_lib (get_fen pile_lib (games ?w ! 0))) = None"
    by (simp add: init_world_def)
  from recursive_search_depth_zero [OF h, of True]
  show ?thesis
    by (simp add: pile_lib_def init_world_def evaluate_position_def evaluation_dict_def
          upt_conv_Cons)
qed

text \<open>
  Claim C8 fails: the code has no guard and no error of its own. On a game without legal
  moves the loop of \<^verbatim>\<open>search\<close> runs zero times and \<^verbatim>\<open>max(score_list)\<close> raises
  the built-in \<^verbatim>\<open>ValueError\<close> of an empty sequence.
\<close>

theorem search_no_moves_counterexample:
  "search pile_lib 0 (init_world [(True, 0)]) = (Inl ValueError, init_world [(True, 0)])"
  by (simp add: pile_simps)

text \<open>
  Claim C8, amended. When component 0 of \<^verbatim>\<open>legal_moves()\<close> is empty, \<^verbatim>\<open>search\<close>
  raises the \<^verbatim>\<open>ValueError\<close> of \<^verbatim>\<open>max\<close> on an empty sequence, and the state is as
  it was on entry: the table and the counter are not reset.
\<close>

theorem search_no_moves_raises:
  assumes "fst (legal_moves lib (games w ! game)) = []"
  shows "search lib game w = (Inl ValueError, w)"
  using assms by (rule search_no_moves)

theorem search_no_moves_raises_witness:
  "search pile_lib 0 \<lparr>counter = 5, transposition_table = [7 \<mapsto> 4], games = [(False, 0)]\<rparr> =
     (Inl ValueError, \<lparr>counter = 5, transposition_table = [7 \<mapsto> 4], games = [(False, 0)]\<rparr>)"
proof -
  let ?w = "\<lparr>counter = 5, transposition_table = [7 \<mapsto> 4], games = [(False, 0::nat)]\<rparr>"
  have h: "fst (legal_moves pile_lib (games ?w ! 0)) = []"
    by (simp add: pile_lib_def)
  from search_no_moves_raises [OF h] show ?thesis .
qed

text \<open>
  Claim C1. Let \<open>game\<close> be an object of the store whose key is not in the table, with
  at least one move in component 0 of \<^verbatim>\<open>legal_moves()\<close>, and let the depth be
  positive. Then there are scores, one per move in enumeration order, and states
  \<open>ws\<close>, starting with the state on entry, such that for each move \<open>i\<close> the object
  made by \<^verbatim>\<open>game.copy().push(move)\<close> in state \<open>ws ! i\<close> has the value of the
  successor of the game under that move, and \<^verbatim>\<open>recursive_search\<close> on it at depth
  \<open>depth - 1\<close> returns \<open>scores ! i\<close> and leaves state \<open>ws ! (i + 1)\<close>. The call
  returns the maximum of these scores if the side to move in the game is the perspective
  player and their minimum otherwise, and the state it leaves is the last of \<open>ws\<close> with
  that result stored in the table under the game's key.
\<close>

theorem recursive_search_combines_children:
  fixes w :: "'g world"
  assumes "game < length (games w)"
    and "transposition_table w (CityHash64 lib (get_fen lib (games w ! game))) = None"
    and "0 < depth"
    and "fst (legal_moves lib (games w ! game)) \<noteq> []"
  shows "\<exists>scores ws.
           length scores = length (fst (legal_moves lib (games w ! game))) \<and>
           length ws = Suc (length (fst (legal_moves lib (games w ! game)))) \<and>
           ws ! 0 = w \<and>
           (\<forall>i<length (fst (legal_moves lib (games w ! game))).
              case copy_push lib game (fst (legal_moves lib (games w ! game)) ! i) (ws ! i) of
                (child, wc) \<Rightarrow>
                  games wc ! child =
                    push lib (games w ! game) (fst (legal_moves lib (games w ! game)) ! i) \<and>
                  recursive_search lib child (depth - 1) pc wc = (Inr (scores ! i), ws ! Suc i)) \<and>
           recursive_search lib game depth pc w =
             (Inr (if player_turn lib (games w ! game) = pc
                   then Max (set scores) else Min (set scores)),
              (last ws)\<lparr>transposition_table := (transposition_table (last ws))
                 (CityHash64 lib (get_fen lib (games w ! game)) \<mapsto>
                    (if player_turn lib (games w ! game) = pc
                     then Max (set scores) else Min (set scores)))\<rparr>)"
proof -
  let ?legal = "fst (legal_moves lib (games w ! game))"
  from children_chain [OF assms(1), of ?legal lib "depth - 1" pc] obtain scores ws where
    len: "length scores = length ?legal" "length ws = Suc (length ?legal)" and
    hd: "ws ! 0 = w" and
    chain: "\<forall>i<length ?legal.
              case copy_push lib game (?legal ! i) (ws ! i) of
                (child, wc) \<Rightarrow>
                  games wc ! child = push lib (games w ! game) (?legal ! i) \<and>
                  recursive_search lib child (depth - 1) pc wc = (Inr (scores ! i), ws ! Suc i)" and
    same: "games (last ws) ! game = games w ! game" and
    run: "for_moves (\<lambda>mv w0. case copy_push lib game mv w0 of
                        (new_game, w1) \<Rightarrow> recursive_search lib new_game (depth - 1) pc w1)
             ?legal [] w = (Inr scores, last ws)"
    by blast
  from len(1) assms(4) have ne: "scores \<noteq> []" by auto
  from assms(3) have d: "depth \<noteq> 0" by simp
  from recursive_search_inner [OF assms(2) d assms(4) run ne] same
  have "recursive_search lib game depth pc w =
             (Inr (if player_turn lib (games w ! game) = pc
                   then Max (set scores) else Min (set scores)),
              (last ws)\<lparr>transposition_table := (transposition_table (last ws))
                 (CityHash64 lib (get_fen lib (games w ! game)) \<mapsto>
                    (if player_turn lib (games w ! game) = pc
                     then Max (set scores) else Min (set scores)))\<rparr>)"
    by (simp add: Let_def)
  with len hd chain show ?thesis by blast
qed

text \<open>
  The game \<open>(True, 2)\<close> at depth 1: the children \<open>(False, 1)\<close> and \<open>(False, 0)\<close>
  evaluate to 4 and 0 for \<open>True\<close> (maximum 4) and to \<open>-4\<close> and 0 for \<open>False\<close>
  (minimum \<open>-4\<close>).
\<close>

theorem recursive_search_combines_children_witness:
  "(\<exists>scores ws.
      length scores = 2 \<and> length ws = 3 \<and> ws ! 0 = init_world [(True, 2)] \<and>
      recursive_search pile_lib 0 1 True (init_world [(True, 2)]) =
        (Inr (Max (set scores)),
         (last ws)\<lparr>transposition_table := (transposition_table (last ws))(7 \<mapsto> Max (set scores))\<rparr>))
   \<and> fst (recursive_search pile_lib 0 1 True (init_world [(True, 2)])) = Inr 4
   \<and> fst (recursive_search pile_lib 0 1 False (init_world [(True, 2)])) = Inr (- 4)
   \<and> transposition_table (snd (recursive_search pile_lib 0 1 True (init_world [(True, 2)]))) 7
       = Some 4"
proof -
  let ?w = "init_world [(True, 2::nat)]"
  have h1: "0 < length (games ?w)" by (simp add: init_world_def)
  have h2: "transposition_table ?w (CityHash64 pile_lib (get_fen pile_lib (games ?w ! 0))) = None"
    by (simp add: init_world_def)
  have h3: "0 < (1::nat)" by simp
  have h4: "fst (legal_moves pile_lib (games ?w ! 0)) \<noteq> []"
    by (simp add: init_world_def pile_lib_def)
  have v: "fst (legal_moves pile_lib (games ?w ! 0)) = [1, 2]"
      "CityHash64 pile_lib (get_fen pile_lib (games ?w ! 0)) = 7"
      "player_turn pile_lib (games ?w ! 0) = True"
    by (simp_all add: init_world_def pile_lib_def)
  from recursive_search_combines_children [OF h1 h2 h3 h4, of True]
  have e: "\<exists>scores ws.
      length scores = 2 \<and> length ws = 3 \<and> ws ! 0 = init_world [(True, 2)] \<and>
      recursive_search pile_lib 0 1 True (init_world [(True, 2)]) =
        (Inr (Max (set scores)),
         (last ws)\<lparr>transposition_table := (transposition_table (last ws))(7 \<mapsto> Max (set scores))\<rparr>)"
    unfolding v by (elim exE conjE, intro exI conjI) simp_all
  have r: "fst (recursive_search pile_lib 0 1 True ?w) = Inr 4"
    "fst (recursive_search pile_lib 0 1 False ?w) = Inr (- 4)"
    "transposition_table (snd (recursive_search pile_lib 0 1 True ?w)) 7 = Some 4"
    by (simp_all add: pile_simps)
  show ?thesis by (intro conjI e r)
qed

text \<open>
  Claim C2. Let \<open>game\<close> be an object of the store with at least one move in component
  0 of \<^verbatim>\<open>legal_moves()\<close>. Then there are scores, one per move in enumeration order,
  and states \<open>ws\<close>, starting with the state on entry, such that for each move \<open>i\<close>
  the object made by \<^verbatim>\<open>game.copy().push(move)\<close> in state \<open>ws ! i\<close> has the value of
  the successor of the game under that move, and \<^verbatim>\<open>recursive_search\<close> on it, at depth
  3 and from the perspective of the side to move in the game, returns \<open>scores ! i\<close>
  and leaves state \<open>ws ! (i + 1)\<close>. \<^verbatim>\<open>search\<close> returns the move at an index
  \<open>best\<close> whose score is at least every score and strictly above every earlier score:
  the first move of maximal score. When there is exactly one move, that move is returned.
\<close>

theorem search_returns_first_best:
  fixes w :: "'g world"
  assumes "game < length (games w)"
    and "fst (legal_moves lib (games w ! game)) \<noteq> []"
  shows "\<exists>scores ws best.
           length scores = length (fst (legal_moves lib (games w ! game))) \<and>
           length ws = Suc (length (fst (legal_moves lib (games w ! game)))) \<and>
           ws ! 0 = w \<and>
           (\<forall>i<length (fst (legal_moves lib (games w ! game))).
              case copy_push lib game (fst (legal_moves lib (games w ! game)) ! i) (ws ! i) of
                (child, wc) \<Rightarrow>
                  games wc ! child =
                    push lib (games w ! game) (fst (legal_moves lib (games w ! game)) ! i) \<and>
                  recursive_search lib child 3 (player_turn lib (games w ! game)) wc =
                    (Inr (scores ! i), ws ! Suc i)) \<and>
           best < length (fst (legal_moves lib (games w ! game))) \<and>
           (\<forall>j<length scores. scores ! j \<le> scores ! best) \<and>
           (\<forall>j<best. scores ! j < scores ! best) \<and>
           fst (search lib game w) =
             Inr (PlayResult (Move (fst (legal_moves lib (games w ! game)) ! best)) None) \<and>
           (\<forall>mv. fst (legal_moves lib (games w ! game)) = [mv] \<longrightarrow>
              fst (search lib game w) = Inr (PlayResult (Move mv) None))"
proof -
  let ?legal = "fst (legal_moves lib (games w ! game))"
  let ?pc = "player_turn lib (games w ! game)"
  from children_chain [OF assms(1), of ?legal lib 3 ?pc] obtain scores ws where
    len: "length scores = length ?legal" "length ws = Suc (length ?legal)" and
    hd: "ws ! 0 = w" and
    chain: "\<forall>i<length ?legal.
              case copy_push lib game (?legal ! i) (ws ! i) of
                (child, wc) \<Rightarrow>
                  games wc ! child = push lib (games w ! game) (?legal ! i) \<and>
                  recursive_search lib child 3 ?pc wc = (Inr (scores ! i), ws ! Suc i)" and
    run: "for_moves (\<lambda>mv w0. case copy_push lib game mv w0 of
                        (new_game, w1) \<Rightarrow> recursive_search lib new_game 3 ?pc w1)
             ?legal [] w = (Inr scores, last ws)"
    by blast
  from search_run [OF run len(1) assms(2)] obtain best where
    best: "best < length scores" "scores ! best = Max (set scores)"
      "\<forall>j<best. scores ! j \<noteq> Max (set scores)" and
    res: "search lib game w =
            (Inr (PlayResult (Move (?legal ! best)) None),
             (last ws)\<lparr>counter := 0, transposition_table := Map.empty\<rparr>)"
    by blast
  have le: "\<forall>j<length scores. scores ! j \<le> scores ! best"
    using best(2) by simp
  have lt: "\<forall>j<best. scores ! j < scores ! best"
  proof (intro allI impI)
    fix j assume j: "j < best"
    with best(1) have "j < length scores" by simp
    with le have "scores ! j \<le> scores ! best" by simp
    moreover from best(2,3) j have "scores ! j \<noteq> scores ! best" by simp
    ultimately show "scores ! j < scores ! best" by simp
  qed
  have fst_res: "fst (search lib game w) = Inr (PlayResult (Move (?legal ! best)) None)"
    using res by simp
  have single: "\<forall>mv. ?legal = [mv] \<longrightarrow> fst (search lib game w) = Inr (PlayResult (Move mv) None)"
  proof (intro allI impI)
    fix mv assume one: "?legal = [mv]"
    with best(1) len(1) have "best = 0" by simp
    with fst_res one show "fst (search lib game w) = Inr (PlayResult (Move mv) None)" by simp
  qed
  from best(1) len(1) have "best < length ?legal" by simp
  with len hd chain le lt fst_res single show ?thesis by blast
qed

text \<open>
  The pile of one counter has the single move 1. From the pile of three both moves score
  \<open>-100\<close> and the first is returned; from the pile of two the scores are \<open>-100\<close>
  and 100 and the second is returned.
\<close>

theorem search_returns_first_best_witness:
  "fst (search pile_lib 0 (init_world [(True, 1)])) = Inr (PlayResult (Move 1) None)
   \<and> fst (for_moves
             (\<lambda>mv w0. case copy_push pile_lib 0 mv w0 of
                (new_game, w1) \<Rightarrow> recursive_search pile_lib new_game 3 True w1)
             [1, 2] [] (init_world [(True, 3)])) = Inr [- 100, - 100]
   \<and> fst (search pile_lib 0 (init_world [(True, 3)])) = Inr (PlayResult (Move 1) None)
   \<and> fst (for_moves
             (\<lambda>mv w0. case copy_push pile_lib 0 mv w0 of
                (new_game, w1) \<Rightarrow> recursive_search pile_lib new_game 3 True w1)
             [1, 2] [] (init_world [(True, 2)])) = Inr [- 100, 100]
   \<and> fst (search pile_lib 0 (init_world [(True, 2)])) = Inr (PlayResult (Move 2) None)"
proof -
  let ?w = "init_world [(True, 1::nat)]"
  have h1: "0 < length (games ?w)" by (simp add: init_world_def)
  have h2: "fst (legal_moves pile_lib (games ?w ! 0)) \<noteq> []"
    by (simp add: init_world_def pile_lib_def)
  have one: "fst (legal_moves pile_lib (games ?w ! 0)) = [1]"
    by (simp add: init_world_def pile_lib_def)
  from search_returns_first_best [OF h1 h2] one
  have a: "fst (search pile_lib 0 ?w) = Inr (PlayResult (Move 1) None)"
    by blast
  have b: "fst (for_moves
             (\<lambda>mv w0. case copy_push pile_lib 0 mv w0 of
                (new_game, w1) \<Rightarrow> recursive_search pile_lib new_game 3 True w1)
             [1, 2] [] (init_world [(True, 3)])) = Inr [- 100, - 100]"
    "fst (search pile_lib 0 (init_world [(True, 3)])) = Inr (PlayResult (Move 1) None)"
    "fst (for_moves
             (\<lambda>mv w0. case copy_push pile_lib 0 mv w0 of
                (new_game, w1) \<Rightarrow> recursive_search pile_lib new_game 3 True w1)
             [1, 2] [] (init_world [(True, 2)])) = Inr [- 100, 100]"
    "fst (search pile_lib 0 (init_world [(True, 2)])) = Inr (PlayResult (Move 2) None)"
    by (simp_all add: pile_simps)
  show ?thesis by (intro conjI a b)
qed

lemma search_cleared:
  assumes "counter w = 0" and "transposition_table w = Map.empty"
  shows "counter (snd (search lib game w)) = 0 \<and>
         transposition_table (snd (search lib game w)) = Map.empty"
proof (cases "fst (legal_moves lib (games w ! game)) = []")
  case True
  with assms show ?thesis by (simp add: search_no_moves)
next
  case False
  let ?body = "\<lambda>mv w0. case copy_push lib game mv w0 of
                 (new_game, w1) \<Rightarrow>
                   recursive_search lib new_game 3 (player_turn lib (games w ! game)) w1"
  let ?legal = "fst (legal_moves lib (games w ! game))"
  have total: "\<And>mv w0. \<exists>r w'. ?body mv w0 = (Inr r, w')"
    by (rule child_search_total)
  from for_moves_chain [of ?body ?legal w "[]", OF total] obtain scores w2 where
    len: "length scores = length ?legal" and
    run: "for_moves ?body ?legal [] w = (Inr scores, w2)"
    by auto
  from search_run [OF run len False] obtain best where
    "search lib game w = (Inr (PlayResult (Move (?legal ! best)) None),
              w2\<lparr>counter := 0, transposition_table := Map.empty\<rparr>)"
    by blast
  then show ?thesis by simp
qed

lemma search_fold_cleared:
  "counter w = 0 \<Longrightarrow> transposition_table w = Map.empty \<Longrightarrow>
     counter (fold (\<lambda>game w'. snd (search lib game w')) gs w) = 0 \<and>
     transposition_table (fold (\<lambda>game w'. snd (search lib game w')) gs w) = Map.empty"
proof (induction gs arbitrary: w)
  case Nil
  then show ?case by simp
next
  case (Cons g gs)
  from search_cleared [OF Cons.prems, of lib g]
  have "counter (snd (search lib g w)) = 0"
    "transposition_table (snd (search lib g w)) = Map.empty"
    by simp_all
  from Cons.IH [OF this] show ?case by simp
qed

text \<open>
  Claim C9. When the counter is 0 and the transposition table is empty as \<^verbatim>\<open>search\<close>
  is entered, the counter is 0 and the table is empty when it returns; so after any
  sequence of top-level searches, run one after the other from such a state, the counter
  is 0 and the table is empty again.
\<close>

theorem search_resets_table_and_counter:
  assumes "counter w = 0" and "transposition_table w = Map.empty"
  shows "counter (snd (search lib game w)) = 0
       \<and> transposition_table (snd (search lib game w)) = Map.empty
       \<and> counter (fold (\<lambda>game w'. snd (search lib game w')) gs w) = 0
       \<and> transposition_table (fold (\<lambda>game w'. snd (search lib game w')) gs w) = Map.empty"
  using search_cleared [OF assms, of lib game] search_fold_cleared [OF assms, of lib gs]
  by simp

text \<open>
  From the pile of four, the loop of \<^verbatim>\<open>search\<close> leaves the counter at 1 and an entry
  under the key 8; after \<^verbatim>\<open>search\<close> the counter is 0 and the table is empty.
\<close>

theorem search_resets_table_and_counter_witness:
  "counter (snd (for_moves
             (\<lambda>mv w0. case copy_push pile_lib 0 mv w0 of
                (new_game, w1) \<Rightarrow> recursive_search pile_lib new_game 3 True w1)
             [1, 2] [] (init_world [(True, 4)]))) = 1
   \<and> transposition_table (snd (for_moves
             (\<lambda>mv w0. case copy_push pile_lib 0 mv w0 of
                (new_game, w1) \<Rightarrow> recursive_search pile_lib new_game 3 True w1)
             [1, 2] [] (init_world [(True, 4)]))) 8 = Some 100
   \<and> counter (snd (search pile_lib 0 (init_world [(True, 4)]))) = 0
   \<and> transposition_table (snd (search pile_lib 0 (init_world [(True, 4)]))) = Map.empty
   \<and> counter (fold (\<lambda>game w'. snd (search pile_lib game w')) [0, 1, 0]
               (init_world [(True, 4), (False, 0)])) = 0
   \<and> transposition_table (fold (\<lambda>game w'. snd (search pile_lib game w')) [0, 1, 0]
               (init_world [(True, 4), (False, 0)])) = Map.empty"
proof -
  have h1: "counter (init_world gs) = 0" for gs :: "(bool \<times> nat) list"
    by (simp add: init_world_def)
  have h2: "transposition_table (init_world gs) = Map.empty" for gs :: "(bool \<times> nat) list"
    by (simp add: init_world_def)
  have a: "counter (snd (for_moves
             (\<lambda>mv w0. case copy_push pile_lib 0 mv w0 of
                (new_game, w1) \<Rightarrow> recursive_search pile_lib new_game 3 True w1)
             [1, 2] [] (init_world [(True, 4)]))) = 1"
    "transposition_table (snd (for_moves
             (\<lambda>mv w0. case copy_push pile_lib 0 mv w0 of
                (new_game, w1) \<Rightarrow> recursive_search pile_lib new_game 3 True w1)
             [1, 2] [] (init_world [(True, 4)]))) 8 = Some 100"
    by (simp_all add: pile_simps)
  from search_resets_table_and_counter
         [OF h1 [of "[(True, 4)]"] h2 [of "[(True, 4)]"], of pile_lib 0 "[]"]
  have b: "counter (snd (search pile_lib 0 (init_world [(True, 4)]))) = 0"
    "transposition_table (snd (search pile_lib 0 (init_world [(True, 4)]))) = Map.empty"
    by simp_all
  from search_resets_table_and_counter
         [OF h1 [of "[(True, 4), (False, 0)]"] h2 [of "[(True, 4), (False, 0)]"],
          of pile_lib 0 "[0, 1, 0]"]
  have c: "counter (fold (\<lambda>game w'. snd (search pile_lib game w')) [0, 1, 0]
               (init_world [(True, 4), (False, 0)])) = 0"
    "transposition_table (fold (\<lambda>game w'. snd (search pile_lib game w')) [0, 1, 0]
               (init_world [(True, 4), (False, 0)])) = Map.empty"
    by blast+
  show ?thesis by (intro conjI a b c)
qed

text \<open>
  Claim C10. Every game object that exists when \<^verbatim>\<open>recursive_search\<close> or
  \<^verbatim>\<open>search\<close> is called, the caller's game among them, has the same value when the
  call returns. Each explored move is made on a copy: \<^verbatim>\<open>game.copy().push(move)\<close>
  returns a reference different from every existing one and changes no existing object.
\<close>

theorem search_leaves_games_unchanged:
  fixes w :: "'g world"
  assumes "r < length (games w)"
  shows "games (snd (recursive_search lib game depth pc w)) ! r = games w ! r
       \<and> games (snd (search lib game w)) ! r = games w ! r
       \<and> fst (copy_push lib game mv w) \<noteq> r
       \<and> games (snd (copy_push lib game mv w)) ! r = games w ! r"
proof -
  have "games (snd (recursive_search lib game depth pc w)) ! r = games w ! r"
    using recursive_search_prefix assms by (rule prefix_nth)
  moreover have "games (snd (search lib game w)) ! r = games w ! r"
    using search_prefix assms by (rule prefix_nth)
  moreover have "fst (copy_push lib game mv w) \<noteq> r"
    using assms by (simp add: copy_push_eq)
  moreover have "games (snd (copy_push lib game mv w)) ! r = games w ! r"
    using assms by (simp add: copy_push_eq nth_append)
  ultimately show ?thesis by simp
qed

theorem search_leaves_games_unchanged_witness:
  "games (snd (recursive_search pile_lib 0 3 True (init_world [(True, 4)]))) ! 0 = (True, 4)
   \<and> games (snd (search pile_lib 0 (init_world [(True, 4)]))) ! 0 = (True, 4)
   \<and> fst (copy_push pile_lib 0 1 (init_world [(True, 4)])) = 1
   \<and> games (snd (copy_push pile_lib 0 1 (init_world [(True, 4)]))) = [(True, 4), (False, 3)]
   \<and> length (games (snd (search pile_lib 0 (init_world [(True, 4)])))) = 11"
proof -
  let ?w = "init_world [(True, 4::nat)]"
  have h: "0 < length (games ?w)" by (simp add: init_world_def)
  have g: "games ?w ! 0 = (True, 4)" by (simp add: init_world_def)
  from search_leaves_games_unchanged [OF h, of pile_lib 0 3 True 1] g
  have a: "games (snd (recursive_search pile_lib 0 3 True ?w)) ! 0 = (True, 4)"
    "games (snd (search pile_lib 0 ?w)) ! 0 = (True, 4)"
    by simp_all
  have b: "fst (copy_push pile_lib 0 1 ?w) = 1"
    "games (snd (copy_push pile_lib 0 1 ?w)) = [(True, 4), (False, 3)]"
    "length (games (snd (search pile_lib 0 ?w))) = 11"
    by (simp_all add: pile_simps)
  show ?thesis by (intro conjI a b)
qed

end
